theory Spec2Isabelle
  imports Complex_Main "HOL-Library.AList"
begin

section \<open>Bigram language model of \<open>04-ngram.ipynb\<close>\<close>

text \<open>
  The notebook builds unigram and bigram count tables from tokenised sentences, scores
  sentences with add-k and interpolated smoothing, samples sentences from the bigram
  table and computes corpus perplexity.

  Conventions of the embedding:
  \<^item> a token is a \<open>string\<close>; \<open>str.lower\<close> is modelled on ASCII letters, every other
    character is left as it is;
  \<^item> a \<open>collections.Counter\<close> is an association list in insertion order; reading a
    missing key gives 0 and does not insert it;
  \<^item> \<open>defaultdict(Counter)\<close> is an association list of rows in insertion order; reading a
    missing key \<^emph>\<open>inserts\<close> an empty row, so every function that indexes the bigram table
    returns the table next to its result;
  \<^item> a Python \<open>float\<close> is a real number: rounding, overflow and underflow are not modelled;
  \<^item> an exception is a value \<open>Inl e\<close> of the result type \<open>error + 'a\<close>;
  \<^item> the random sampler is a function of an explicit sequence of uniform draws; what holds
    with probability 1 is stated on the probabilities the sampler is given.
\<close>

subsection \<open>Data model\<close>

type_synonym token = string
type_synonym sentence = "token list"
type_synonym counter = "(token \<times> nat) list"
type_synonym bigram_table = "(token \<times> counter) list"

datatype error = ZeroDivisionError | ValueError

definition START :: token where
  "START = ''<s>''"

definition END :: token where
  "END = ''</s>''"

subsection \<open>Python primitives\<close>

definition lower_char :: "char \<Rightarrow> char" where
  "lower_char c =
     (case map_of (zip ''ABCDEFGHIJKLMNOPQRSTUVWXYZ'' ''abcdefghijklmnopqrstuvwxyz'') c of
        None \<Rightarrow> c
      | Some l \<Rightarrow> l)"

definition lower :: "token \<Rightarrow> token" where
  "lower w = map lower_char w"

text \<open>\<open>Counter.__getitem__\<close>: a missing key reads as 0, the counter is not changed.\<close>

definition counter_get :: "counter \<Rightarrow> token \<Rightarrow> nat" where
  "counter_get c w = (case map_of c w of None \<Rightarrow> 0 | Some n \<Rightarrow> n)"

text \<open>\<open>c[w] += 1\<close> on a Counter: an existing key keeps its place, a new one goes last.\<close>

definition counter_inc :: "counter \<Rightarrow> token \<Rightarrow> counter" where
  "counter_inc c w = AList.update w (counter_get c w + 1) c"

text \<open>
  \<open>defaultdict.__getitem__\<close> with the factory \<open>Counter\<close>: a missing key is inserted with
  an empty row, and that row is returned.
\<close>

definition dd_get :: "bigram_table \<Rightarrow> token \<Rightarrow> counter \<times> bigram_table" where
  "dd_get b p = (case map_of b p of None \<Rightarrow> ([], b @ [(p, [])]) | Some row \<Rightarrow> (row, b))"

text \<open>\<open>bigram_counts[first][second] += 1\<close>: the row is fetched (and created), then updated in place.\<close>

definition bigram_inc :: "bigram_table \<Rightarrow> token \<Rightarrow> token \<Rightarrow> bigram_table" where
  "bigram_inc b first second =
     (let (row, b1) = dd_get b first in AList.update first (counter_inc row second) b1)"

text \<open>\<open>zip(sentence[:-1], sentence[1:])\<close>\<close>

definition bigrams_of :: "sentence \<Rightarrow> (token \<times> token) list" where
  "bigrams_of s = zip (butlast s) (tl s)"

text \<open>Division and logarithm raise where Python raises.\<close>

definition py_div :: "real \<Rightarrow> real \<Rightarrow> error + real" where
  "py_div x y = (if y = 0 then Inl ZeroDivisionError else Inr (x / y))"

definition math_log :: "real \<Rightarrow> error + real" where
  "math_log x = (if x \<le> 0 then Inl ValueError else Inr (ln x))"

subsection \<open>Counting\<close>

definition convert_sentence :: "sentence \<Rightarrow> sentence" where
  "convert_sentence sentence = [START] @ map lower sentence @ [END]"

definition count_unigrams :: "sentence list \<Rightarrow> counter \<times> nat \<Rightarrow> counter \<times> nat" where
  "count_unigrams sentences st =
     fold (\<lambda>sentence (unigram_counts, start_count).
             (fold (\<lambda>word u. counter_inc u word) (tl (convert_sentence sentence)) unigram_counts,
              start_count + 1))
          sentences st"

definition count_bigrams :: "sentence list \<Rightarrow> bigram_table \<Rightarrow> bigram_table" where
  "count_bigrams sentences bigram_counts =
     fold (\<lambda>sentence b.
             fold (\<lambda>(first, second) b'. bigram_inc b' first second)
                  (bigrams_of (convert_sentence sentence)) b)
          sentences bigram_counts"

definition get_counts :: "sentence list \<Rightarrow> counter \<times> bigram_table \<times> nat \<times> real" where
  "get_counts sentences =
     (let (unigram_counts, start_count) = count_unigrams sentences ([], 0);
          bigram_counts = count_bigrams sentences [];
          token_count = real (sum_list (map snd unigram_counts))
      in (unigram_counts, bigram_counts, start_count, token_count))"

subsection \<open>Smoothing estimators\<close>

fun bind_err :: "error + 'a \<Rightarrow> ('a \<Rightarrow> error + 'b) \<Rightarrow> error + 'b" where
  "bind_err (Inl e) f = Inl e"
| "bind_err (Inr x) f = f x"

text \<open>
  Both estimators index \<open>bigram_counts[prev_word]\<close>, which is a \<open>defaultdict\<close> read: the
  table they return has a new empty row when \<open>prev_word\<close> was not a key.
  \<open>len(unigram_counts)\<close> is the length of the association list, whose keys are distinct.
\<close>

definition get_log_prob_addk ::
  "token \<Rightarrow> token \<Rightarrow> counter \<Rightarrow> bigram_table \<Rightarrow> real \<Rightarrow> (error + real) \<times> bigram_table" where
  "get_log_prob_addk prev_word word unigram_counts bigram_counts k =
     (let (row, b1) = dd_get bigram_counts prev_word;
          sm_bigram_counts = real (counter_get row word) + k;
          sm_unigram_counts =
            real (counter_get unigram_counts prev_word) + k * real (length unigram_counts)
      in (bind_err (py_div sm_bigram_counts sm_unigram_counts) math_log, b1))"

definition get_log_prob_interp ::
  "token \<Rightarrow> token \<Rightarrow> counter \<Rightarrow> bigram_table \<Rightarrow> nat \<Rightarrow> real \<Rightarrow> real \<times> real
     \<Rightarrow> (error + real) \<times> bigram_table" where
  "get_log_prob_interp prev_word word unigram_counts bigram_counts start_count token_count lambdas =
     (let bigram_lambda = fst lambdas;
          unigram_lambda = snd lambdas;
          zerogram_lambda = 1 - fst lambdas - snd lambdas;
          (row, b1) = dd_get bigram_counts prev_word;
          sm_bigram_counts = real (counter_get row word) * bigram_lambda
      in (bind_err
            (if sm_bigram_counts = 0 then Inr 0
             else let u_counts = (if prev_word = START then start_count
                                  else counter_get unigram_counts prev_word)
                  in py_div sm_bigram_counts (real u_counts))
            (\<lambda>interp_bigram_counts.
          bind_err (py_div (real (counter_get unigram_counts word)) token_count)
            (\<lambda>q. let interp_unigram_counts = q * unigram_lambda;
                     vocab_size = length unigram_counts
                 in
          bind_err (py_div 1 (real vocab_size))
            (\<lambda>z. let interp_zerogram_counts = z * zerogram_lambda
                 in math_log (interp_bigram_counts + interp_unigram_counts
                              + interp_zerogram_counts)))),
          b1))"

subsection \<open>Sentence scorers\<close>

text \<open>
  The list comprehension \<open>[f(prev_word, word) for prev_word, word in bigram_list]\<close>: the calls
  run in order on the table left by the call before; the first exception ends it.
\<close>

fun comprehension ::
  "('a \<Rightarrow> bigram_table \<Rightarrow> (error + real) \<times> bigram_table) \<Rightarrow> 'a list \<Rightarrow> bigram_table
     \<Rightarrow> (error + real list) \<times> bigram_table" where
  "comprehension f [] b = (Inr [], b)"
| "comprehension f (x # xs) b =
     (case f x b of
        (Inl e, b1) \<Rightarrow> (Inl e, b1)
      | (Inr v, b1) \<Rightarrow>
          (case comprehension f xs b1 of
             (Inl e, b2) \<Rightarrow> (Inl e, b2)
           | (Inr vs, b2) \<Rightarrow> (Inr (v # vs), b2)))"

definition get_sent_log_prob_addk ::
  "sentence \<Rightarrow> counter \<Rightarrow> bigram_table \<Rightarrow> nat \<Rightarrow> real \<Rightarrow> real \<Rightarrow> (error + real) \<times> bigram_table" where
  "get_sent_log_prob_addk sentence unigram_counts bigram_counts start_count token_count k =
     (let sentence = convert_sentence sentence;
          bigram_list = bigrams_of sentence
      in case comprehension
                (\<lambda>(prev_word, word) b. get_log_prob_addk prev_word word unigram_counts b k)
                bigram_list bigram_counts of
           (Inl e, b1) \<Rightarrow> (Inl e, b1)
         | (Inr vs, b1) \<Rightarrow> (Inr (sum_list vs), b1))"

definition get_sent_log_prob_interp ::
  "sentence \<Rightarrow> counter \<Rightarrow> bigram_table \<Rightarrow> nat \<Rightarrow> real \<Rightarrow> real \<times> real
     \<Rightarrow> (error + real) \<times> bigram_table" where
  "get_sent_log_prob_interp sentence unigram_counts bigram_counts start_count token_count lambdas =
     (let sentence = convert_sentence sentence;
          bigram_list = bigrams_of sentence
      in case comprehension
                (\<lambda>(prev_word, word) b.
                   get_log_prob_interp prev_word word unigram_counts b start_count token_count
                     lambdas)
                bigram_list bigram_counts of
           (Inl e, b1) \<Rightarrow> (Inl e, b1)
         | (Inr vs, b1) \<Rightarrow> (Inr (sum_list vs), b1))"

subsection \<open>Perplexity\<close>

type_synonym 'p scorer =
  "sentence \<Rightarrow> counter \<Rightarrow> bigram_table \<Rightarrow> nat \<Rightarrow> real \<Rightarrow> 'p \<Rightarrow> (error + real) \<times> bigram_table"

text \<open>The loop of \<open>calculate_perplexity\<close>; the accumulator is \<open>(total_log_prob, test_token_count)\<close>.\<close>

fun perplexity_loop ::
  "'p scorer \<Rightarrow> counter \<Rightarrow> nat \<Rightarrow> real \<Rightarrow> 'p \<Rightarrow> sentence list \<Rightarrow> real \<times> nat \<Rightarrow> bigram_table
     \<Rightarrow> (error + real \<times> nat) \<times> bigram_table" where
  "perplexity_loop smoothing_function unigram_counts start_count token_count parameter [] acc b =
     (Inr acc, b)"
| "perplexity_loop smoothing_function unigram_counts start_count token_count parameter
     (sentence # sentences) (total_log_prob, test_token_count) b =
     (let test_token_count = test_token_count + (length sentence + 1)
      in case smoothing_function sentence unigram_counts b start_count token_count parameter of
           (Inl e, b1) \<Rightarrow> (Inl e, b1)
         | (Inr lp, b1) \<Rightarrow>
             perplexity_loop smoothing_function unigram_counts start_count token_count parameter
               sentences (total_log_prob + lp, test_token_count) b1)"

definition calculate_perplexity ::
  "sentence list \<Rightarrow> counter \<Rightarrow> bigram_table \<Rightarrow> nat \<Rightarrow> real \<Rightarrow> 'p scorer \<Rightarrow> 'p
     \<Rightarrow> (error + real) \<times> bigram_table" where
  "calculate_perplexity sentences unigram_counts bigram_counts start_count token_count
     smoothing_function parameter =
     (case perplexity_loop smoothing_function unigram_counts start_count token_count parameter
             sentences (0, 0) bigram_counts of
        (Inl e, b1) \<Rightarrow> (Inl e, b1)
      | (Inr (total_log_prob, test_token_count), b1) \<Rightarrow>
          (bind_err (py_div (- total_log_prob) (real test_token_count)) (\<lambda>x. Inr (exp x)), b1))"

subsection \<open>Sentence generator\<close>

text \<open>
  \<open>numpy.random.choice(a, p=p)\<close> is a library function. It is modelled as sampling by the
  cumulative distribution from one uniform draw \<open>u\<close> in \<open>[0, 1)\<close>: the first key whose
  cumulative probability exceeds \<open>u\<close> is returned (the last cumulative value is 1, so the
  last key is returned when no earlier one was). An empty \<open>a\<close>, lists of different lengths
  and probabilities that do not sum to 1 raise \<open>ValueError\<close>. The random source is the
  sequence \<open>rnd\<close> of the uniform draws, read at the index of the loop iteration.

  The keys are first converted to a numpy array of fixed-width strings, and an element read
  from such an array has lost its trailing NUL characters: \<open>np_str\<close> is that conversion.
\<close>

definition np_str :: "token \<Rightarrow> token" where
  "np_str w = rev (dropWhile (\<lambda>c. c = CHR 0x00) (rev w))"

fun pick :: "real \<Rightarrow> token list \<Rightarrow> real list \<Rightarrow> token" where
  "pick u [] ps = []"
| "pick u [x] ps = x"
| "pick u (x # xs) [] = x"
| "pick u (x # xs) (p # ps) = (if u < p then x else pick (u - p) xs ps)"

definition choice :: "real \<Rightarrow> token list \<Rightarrow> real list \<Rightarrow> error + token" where
  "choice u a p =
     (if a = [] \<or> length a \<noteq> length p \<or> sum_list p \<noteq> 1 then Inl ValueError
      else Inr (np_str (pick u a p)))"

text \<open>The loop that fills \<open>bigram_probs\<close>: each count is divided by \<open>total_counts\<close>.\<close>

fun bigram_probs :: "counter \<Rightarrow> real \<Rightarrow> error + real list" where
  "bigram_probs [] total_counts = Inr []"
| "bigram_probs ((word, n) # row) total_counts =
     bind_err (py_div (real n) total_counts)
       (\<lambda>p. bind_err (bigram_probs row total_counts) (\<lambda>ps. Inr (p # ps)))"

text \<open>
  The \<open>while\<close> loop of \<open>generate_sentence\<close>. It may run forever, so it is a partial function:
  \<open>None\<close> is the loop that never ends.
\<close>

partial_function (option) generate_loop ::
  "(nat \<Rightarrow> real) \<Rightarrow> nat \<Rightarrow> bigram_table \<Rightarrow> token \<Rightarrow> sentence
     \<Rightarrow> ((error + sentence) \<times> bigram_table) option" where
  "generate_loop rnd i bigram_counts current_word sentence =
     (if current_word \<noteq> END then
        (case dd_get bigram_counts current_word of
           (prev_word_counts, b1) \<Rightarrow>
             (case bigram_probs prev_word_counts (real (sum_list (map snd prev_word_counts))) of
                Inl e \<Rightarrow> Some (Inl e, b1)
              | Inr probs \<Rightarrow>
                  (case choice (rnd i) (map fst prev_word_counts) probs of
                     Inl e \<Rightarrow> Some (Inl e, b1)
                   | Inr w \<Rightarrow> generate_loop rnd (i + 1) b1 w (sentence @ [w]))))
      else Some (Inr sentence, bigram_counts))"

text \<open>\<open>" ".join(tokens)\<close>\<close>

fun join_space :: "token list \<Rightarrow> string" where
  "join_space [] = []"
| "join_space [w] = w"
| "join_space (w # ws) = w @ '' '' @ join_space ws"

definition generate_sentence ::
  "(nat \<Rightarrow> real) \<Rightarrow> bigram_table \<Rightarrow> ((error + string) \<times> bigram_table) option" where
  "generate_sentence rnd bigram_counts =
     (case generate_loop rnd 0 bigram_counts START [START] of
        None \<Rightarrow> None
      | Some (Inl e, b1) \<Rightarrow> Some (Inl e, b1)
      | Some (Inr sentence, b1) \<Rightarrow> Some (Inr (join_space (butlast (tl sentence))), b1))"

subsection \<open>Reading the tables\<close>

text \<open>
  The count of a bigram as the tables hold it: the nested mapping read with the default 0,
  with no insertion.
\<close>

definition bigram_count :: "bigram_table \<Rightarrow> token \<Rightarrow> token \<Rightarrow> nat" where
  "bigram_count b p w = (case map_of b p of None \<Rightarrow> 0 | Some row \<Rightarrow> counter_get row w)"

text \<open>\<open>b'\<close> is \<open>b\<close> followed by rows that are all empty.\<close>

definition only_adds_empty_rows :: "bigram_table \<Rightarrow> bigram_table \<Rightarrow> bool" where
  "only_adds_empty_rows b b' \<longleftrightarrow>
     take (length b) b' = b \<and> list_all (\<lambda>r. snd r = []) (drop (length b) b')"

subsection \<open>Formulas of the specification\<close>

text \<open>
  The smoothed probability of add-k smoothing as the specification writes it, with the
  vocabulary size read as the number of rows of the unigram table.
\<close>

definition spec_addk_probability ::
  "counter \<Rightarrow> bigram_table \<Rightarrow> token \<Rightarrow> token \<Rightarrow> real \<Rightarrow> real" where
  "spec_addk_probability u b prev word k =
     (real (bigram_count b prev word) + k) / (real (counter_get u prev) + k * real (length u))"

text \<open>
  The three terms of the interpolated mixture as the specification writes them; the
  conditioning count is \<open>StartCount\<close> for the START marker and \<open>UnigramCounts[prev]\<close> otherwise.
\<close>

definition spec_conditioning_count :: "counter \<Rightarrow> nat \<Rightarrow> token \<Rightarrow> nat" where
  "spec_conditioning_count u sc prev = (if prev = START then sc else counter_get u prev)"

definition spec_bigram_term :: "counter \<Rightarrow> bigram_table \<Rightarrow> nat \<Rightarrow> token \<Rightarrow> token \<Rightarrow> real \<Rightarrow> real" where
  "spec_bigram_term u b sc prev word bw =
     (if real (bigram_count b prev word) * bw = 0 then 0
      else real (bigram_count b prev word) * bw / real (spec_conditioning_count u sc prev))"

definition spec_unigram_term :: "counter \<Rightarrow> real \<Rightarrow> token \<Rightarrow> real \<Rightarrow> real" where
  "spec_unigram_term u tc word uw = (real (counter_get u word) / tc) * uw"

definition spec_zerogram_term :: "counter \<Rightarrow> real \<Rightarrow> real \<Rightarrow> real" where
  "spec_zerogram_term u bw uw = (1 / real (length u)) * (1 - bw - uw)"

definition spec_mixture ::
  "counter \<Rightarrow> bigram_table \<Rightarrow> nat \<Rightarrow> real \<Rightarrow> token \<Rightarrow> token \<Rightarrow> real \<Rightarrow> real \<Rightarrow> real" where
  "spec_mixture u b sc tc prev word bw uw =
     spec_bigram_term u b sc prev word bw + spec_unigram_term u tc word uw
     + spec_zerogram_term u bw uw"

subsection \<open>Tables the generator can walk\<close>




text \<open>All adjacent pairs of the normalised sentences, in the order in which they are counted.\<close>

definition all_bigrams :: "sentence list \<Rightarrow> (token \<times> token) list" where
  "all_bigrams ss = concat (map (\<lambda>s. bigrams_of (convert_sentence s)) ss)"

text \<open>The random source whose draws are all 0: the sampler returns the first key of each row.\<close>

definition zero_draws :: "nat \<Rightarrow> real" where
  "zero_draws i = 0"

section \<open>Properties\<close>

subsection \<open>Evaluation on concrete corpora\<close>

lemmas counting_defs =
  get_counts_def count_unigrams_def count_bigrams_def convert_sentence_def bigrams_of_def
  bigram_inc_def dd_get_def counter_inc_def counter_get_def lower_def lower_char_def
  START_def END_def

subsection \<open>Counting\<close>

text \<open>
  C6. Counting the corpus of the single sentence \<open>["a", "b"]\<close> gives the unigram counts
  \<open>{a:1, b:1, </s>:1}\<close> (START is not counted, END is), the bigram counts
  \<open>{<s>:{a:1}, a:{b:1}, b:{</s>:1}}\<close>, the start count 1 and the token count 3.
\<close>

theorem get_counts_round_trip:
  "get_counts [[''a'', ''b'']] =
     ([(''a'', 1), (''b'', 1), (''</s>'', 1)],
      [(''<s>'', [(''a'', 1)]), (''a'', [(''b'', 1)]), (''b'', [(''</s>'', 1)])],
      1, 3)"
  by (simp add: counting_defs)

lemma get_counts_unigrams: "fst (get_counts ss) = fst (count_unigrams ss ([], 0))"
  by (simp add: get_counts_def split_beta Let_def)

lemma get_counts_bigrams: "fst (snd (get_counts ss)) = count_bigrams ss []"
  by (simp add: get_counts_def split_beta Let_def)

lemma distinct_counter_inc: "distinct (map fst c) \<Longrightarrow> distinct (map fst (counter_inc c w))"
  by (simp add: counter_inc_def distinct_update)

lemma distinct_fold_inc:
  "distinct (map fst c) \<Longrightarrow> distinct (map fst (fold (\<lambda>word u. counter_inc u word) ws c))"
  by (induction ws arbitrary: c) (simp_all add: distinct_counter_inc)

lemma distinct_count_unigrams:
  "distinct (map fst (fst st)) \<Longrightarrow> distinct (map fst (fst (count_unigrams ss st)))"
  unfolding count_unigrams_def
  by (induction ss arbitrary: st) (simp_all add: distinct_fold_inc split_beta)

lemma get_counts_distinct:
  assumes "get_counts ss = (u, b, sc, tc)"
  shows "distinct (map fst u)"
proof -
  have "u = fst (count_unigrams ss ([], 0))"
    using assms get_counts_unigrams [of ss] by simp
  then show ?thesis using distinct_count_unigrams [of "([], 0)" ss] by simp
qed

lemma bigrams_of_convert:
  "bigrams_of (convert_sentence s) =
     (case map lower s of [] \<Rightarrow> [(START, END)]
      | w # ws \<Rightarrow> (START, w) # zip (w # ws) (ws @ [END]))"
  by (cases "map lower s") (simp_all add: bigrams_of_def convert_sentence_def butlast_append)

lemma bigrams_of_zip:
  "bigrams_of (convert_sentence s) = zip (START # map lower s) (map lower s @ [END])"
  by (simp add: bigrams_of_convert split: list.splits)

lemma count_bigrams_fold:
  "count_bigrams ss b = fold (\<lambda>(first, second) b'. bigram_inc b' first second) (all_bigrams ss) b"
  unfolding count_bigrams_def all_bigrams_def
  by (induction ss arbitrary: b) simp_all

lemma count_unigrams_fold:
  "fst (count_unigrams ss (c, n)) =
     fold (\<lambda>word u. counter_inc u word) (concat (map (\<lambda>s. tl (convert_sentence s)) ss)) c"
  unfolding count_unigrams_def
  by (induction ss arbitrary: c n) simp_all

subsection \<open>Rows of the bigram table built by counting\<close>









lemma map_of_bigram_inc:
  "map_of (bigram_inc b f s) p =
     (if p = f then Some (counter_inc (case map_of b f of None \<Rightarrow> [] | Some r \<Rightarrow> r) s)
      else map_of b p)"
  by (cases "map_of b f")
    (auto simp: bigram_inc_def dd_get_def update_conv' map_add_def split: option.splits)














subsection \<open>Counts held by the tables\<close>

lemma counter_get_inc: "counter_get (counter_inc c s) p = counter_get c p + (if p = s then 1 else 0)"
  by (simp add: counter_get_def counter_inc_def update_conv')

lemma counter_get_fold:
  "counter_get (fold (\<lambda>word u. counter_inc u word) ws c) p = counter_get c p + count_list ws p"
  by (induction ws arbitrary: c) (simp_all add: counter_get_inc)

lemma bigram_count_inc:
  "bigram_count (bigram_inc b f s) p w = bigram_count b p w + (if p = f \<and> w = s then 1 else 0)"
  by (cases "map_of b f")
    (simp_all add: bigram_count_def map_of_bigram_inc counter_get_inc, simp add: counter_get_def)

lemma bigram_count_fold:
  "bigram_count (fold (\<lambda>(first, second) b'. bigram_inc b' first second) pairs b) p w
     = bigram_count b p w + count_list pairs (p, w)"
proof (induction pairs arbitrary: b)
  case Nil
  then show ?case by simp
next
  case (Cons x pairs)
  obtain f s where x: "x = (f, s)" by (cases x)
  show ?case using Cons.IH [of "bigram_inc b f s"] by (simp add: x bigram_count_inc)
qed

lemma count_zip_fst: "count_list (zip xs ys) (p, w) \<le> count_list xs p"
proof (induction xs arbitrary: ys)
  case Nil
  then show ?case by simp
next
  case (Cons x xs)
  show ?case using Cons.IH by (cases ys) (auto simp: le_SucI)
qed

lemma count_list_concat: "count_list (concat xss) x = sum_list (map (\<lambda>xs. count_list xs x) xss)"
  by (induction xss) simp_all

lemma sentence_counts:
  assumes "p \<noteq> START"
  shows "count_list (bigrams_of (convert_sentence s)) (p, w) \<le> count_list (tl (convert_sentence s)) p"
proof -
  have "count_list (zip (START # map lower s) (map lower s @ [END])) (p, w)
          \<le> count_list (START # map lower s) p"
    by (rule count_zip_fst)
  also have "\<dots> = count_list (map lower s) p" using assms by simp
  also have "\<dots> \<le> count_list (map lower s @ [END]) p" by simp
  finally have "count_list (zip (START # map lower s) (map lower s @ [END])) (p, w)
      \<le> count_list (map lower s @ [END]) p" .
  then show ?thesis unfolding bigrams_of_zip by (simp add: convert_sentence_def)
qed

lemma bigram_le_unigram:
  assumes "get_counts ss = (u, b, sc, tc)" and "prev \<noteq> START"
  shows "bigram_count b prev word \<le> counter_get u prev"
proof -
  have u: "u = fold (\<lambda>word u. counter_inc u word) (concat (map (\<lambda>s. tl (convert_sentence s)) ss)) []"
    using assms(1) get_counts_unigrams [of ss] count_unigrams_fold [of ss "[]" 0] by simp
  have b: "b = fold (\<lambda>(first, second) b'. bigram_inc b' first second) (all_bigrams ss) []"
    using assms(1) get_counts_bigrams [of ss] count_bigrams_fold [of ss "[]"] by simp
  have "bigram_count b prev word = sum_list (map (\<lambda>s. count_list (bigrams_of (convert_sentence s)) (prev, word)) ss)"
  proof -
    have "bigram_count [] prev word = 0" by (simp add: bigram_count_def)
    then show ?thesis
      by (simp add: b bigram_count_fold all_bigrams_def count_list_concat comp_def)
  qed
  also have "\<dots> \<le> sum_list (map (\<lambda>s. count_list (tl (convert_sentence s)) prev) ss)"
    by (rule sum_list_mono) (rule sentence_counts [OF assms(2)])
  also have "\<dots> = counter_get u prev"
  proof -
    have "counter_get [] prev = 0" by (simp add: counter_get_def)
    then show ?thesis
      by (simp add: u counter_get_fold count_list_concat comp_def)
  qed
  finally show ?thesis .
qed

subsection \<open>Add-k estimator\<close>

lemma dd_get_row: "counter_get (fst (dd_get b p)) w = bigram_count b p w"
  by (simp add: dd_get_def bigram_count_def counter_get_def split: option.splits)

lemma addk_value:
  assumes "u \<noteq> []" and "0 < k"
  shows "fst (get_log_prob_addk prev word u b k) = Inr (ln (spec_addk_probability u b prev word k))"
    and "0 < spec_addk_probability u b prev word k"
proof -
  have "0 < k * real (length u)" using assms by simp
  then have den: "0 < real (counter_get u prev) + k * real (length u)"
    by (simp add: add_nonneg_pos)
  have num: "0 < real (bigram_count b prev word) + k"
    using assms(2) by (simp add: add_nonneg_pos)
  show "0 < spec_addk_probability u b prev word k"
    using den num by (simp add: spec_addk_probability_def)
  then show "fst (get_log_prob_addk prev word u b k) = Inr (ln (spec_addk_probability u b prev word k))"
    using den
    by (simp add: get_log_prob_addk_def split_beta Let_def dd_get_row py_div_def math_log_def
        spec_addk_probability_def not_le)
qed

text \<open>
  C1. For tables built by \<open>get_counts\<close>, a parameter \<open>k > 0\<close> and a non-empty vocabulary, the
  add-k estimator returns \<open>log((BigramCounts[prev][word] + k) / (UnigramCounts[prev] + k * V))\<close>
  for every \<open>prev\<close> and \<open>word\<close>: a token missing from a table reads as the count 0 and raises
  nothing, and \<open>V\<close> is the number of distinct keys of the unigram table.
\<close>

theorem addk_formula:
  assumes "get_counts ss = (u, b, sc, tc)" and "0 < k" and "u \<noteq> []"
  shows "fst (get_log_prob_addk prev word u b k) =
           Inr (ln ((real (bigram_count b prev word) + k)
                    / (real (counter_get u prev) + k * real (card (fst ` set u)))))"
proof -
  have len: "card (fst ` set u) = length u"
    using get_counts_distinct [OF assms(1)] by (metis distinct_card length_map set_map)
  show ?thesis
    using addk_value(1) [OF assms(3,2), of prev word b]
    by (simp add: spec_addk_probability_def len)
qed

theorem addk_formula_witness:
  "fst (get_log_prob_addk ''a'' ''b'' (fst (get_counts [[''a'', ''b'']]))
         (fst (snd (get_counts [[''a'', ''b'']]))) 1) = Inr (ln (1 / 2))"
  using addk_formula [of "[[''a'', ''b'']]" "fst (get_counts [[''a'', ''b'']])"
      "fst (snd (get_counts [[''a'', ''b'']]))" 1 3 1 "''a''" "''b''"]
  by (simp add: counting_defs bigram_count_def)

lemma addk_difference:
  fixes c n v k1 k2 :: real
  assumes "0 < n + k1 * v" and "0 < n + k2 * v"
  shows "(c + k2) / (n + k2 * v) - (c + k1) / (n + k1 * v)
           = (k2 - k1) * (n - c * v) / ((n + k2 * v) * (n + k1 * v))"
  using assms by (simp add: field_simps)

lemma addk_sign:
  assumes "u \<noteq> []" and "0 < k1" and "k1 < k2"
  shows "spec_addk_probability u b prev word k2 - spec_addk_probability u b prev word k1
           = (k2 - k1) * (real (counter_get u prev) - real (bigram_count b prev word) * real (length u))
             / ((real (counter_get u prev) + k2 * real (length u))
                * (real (counter_get u prev) + k1 * real (length u)))"
    and "0 < (real (counter_get u prev) + k2 * real (length u))
                * (real (counter_get u prev) + k1 * real (length u))"
proof -
  have l: "0 < real (length u)" using assms(1) by simp
  have "0 < k1 * real (length u)" and "0 < k2 * real (length u)"
    using assms l by simp_all
  then have d1: "0 < real (counter_get u prev) + k1 * real (length u)"
    and d2: "0 < real (counter_get u prev) + k2 * real (length u)"
    by (simp_all add: add_nonneg_pos)
  show "spec_addk_probability u b prev word k2 - spec_addk_probability u b prev word k1
           = (k2 - k1) * (real (counter_get u prev) - real (bigram_count b prev word) * real (length u))
             / ((real (counter_get u prev) + k2 * real (length u))
                * (real (counter_get u prev) + k1 * real (length u)))"
    unfolding spec_addk_probability_def by (rule addk_difference [OF d1 d2])
  show "0 < (real (counter_get u prev) + k2 * real (length u))
                * (real (counter_get u prev) + k1 * real (length u))"
    using d1 d2 by simp
qed

text \<open>
  C7 (as the code has it). For a fixed non-empty unigram table and \<open>0 < k1 < k2\<close>, the
  estimator returns the logarithm of the smoothed probability
  \<open>(BigramCounts[prev][word] + k) / (UnigramCounts[prev] + k * V)\<close>, and the direction in
  which that probability moves with \<open>k\<close> is decided by the sign of
  \<open>UnigramCounts[prev] - BigramCounts[prev][word] * V\<close>, not by the raw count being zero or
  not: it decreases when \<open>UnigramCounts[prev] < BigramCounts[prev][word] * V\<close>, increases
  when \<open>BigramCounts[prev][word] * V < UnigramCounts[prev]\<close>, and stays the same when they
  are equal. A bigram with raw count zero therefore never loses probability.
\<close>

theorem addk_monotone:
  assumes "u \<noteq> []" and "0 < k1" and "k1 < k2"
  shows "fst (get_log_prob_addk prev word u b k1) = Inr (ln (spec_addk_probability u b prev word k1)) \<and>
         fst (get_log_prob_addk prev word u b k2) = Inr (ln (spec_addk_probability u b prev word k2)) \<and>
         0 < spec_addk_probability u b prev word k1 \<and>
         0 < spec_addk_probability u b prev word k2 \<and>
         (counter_get u prev < bigram_count b prev word * length u \<longrightarrow>
            spec_addk_probability u b prev word k2 < spec_addk_probability u b prev word k1) \<and>
         (bigram_count b prev word * length u < counter_get u prev \<longrightarrow>
            spec_addk_probability u b prev word k1 < spec_addk_probability u b prev word k2) \<and>
         (bigram_count b prev word * length u = counter_get u prev \<longrightarrow>
            spec_addk_probability u b prev word k1 = spec_addk_probability u b prev word k2) \<and>
         (bigram_count b prev word = 0 \<longrightarrow>
            spec_addk_probability u b prev word k1 \<le> spec_addk_probability u b prev word k2)"
proof -
  let ?n = "real (counter_get u prev)" and ?c = "real (bigram_count b prev word)"
  let ?v = "real (length u)"
  let ?D = "(?n + k2 * ?v) * (?n + k1 * ?v)"
  let ?p1 = "spec_addk_probability u b prev word k1"
  let ?p2 = "spec_addk_probability u b prev word k2"
  have k2: "0 < k2" using assms by simp
  have diff: "?p2 - ?p1 = (k2 - k1) * (?n - ?c * ?v) / ?D" and D: "0 < ?D"
    using addk_sign [OF assms] by simp_all
  have dk: "0 < k2 - k1" using assms(3) by simp
  have dec: "?p2 < ?p1" if "counter_get u prev < bigram_count b prev word * length u"
  proof -
    have "?n < ?c * ?v" using that by (metis of_nat_less_iff of_nat_mult)
    then have "(k2 - k1) * (?n - ?c * ?v) < 0" using dk by (simp add: mult_pos_neg)
    then have "(k2 - k1) * (?n - ?c * ?v) / ?D < 0" using D by (simp add: divide_neg_pos)
    then show ?thesis using diff by simp
  qed
  have inc: "?p1 < ?p2" if "bigram_count b prev word * length u < counter_get u prev"
  proof -
    have "?c * ?v < ?n" using that by (metis of_nat_less_iff of_nat_mult)
    then have "0 < (k2 - k1) * (?n - ?c * ?v)" using dk by simp
    then have "0 < (k2 - k1) * (?n - ?c * ?v) / ?D" using D by simp
    then show ?thesis using diff by simp
  qed
  have same: "?p1 = ?p2" if "bigram_count b prev word * length u = counter_get u prev"
  proof -
    have "?c * ?v = ?n" using that by (metis of_nat_mult)
    then show ?thesis using diff by simp
  qed
  have zero: "?p1 \<le> ?p2" if "bigram_count b prev word = 0"
  proof (cases "counter_get u prev = 0")
    case True
    then show ?thesis using same that by simp
  next
    case False
    then show ?thesis using inc that by simp
  qed
  show ?thesis
    using addk_value [OF assms(1,2)] addk_value [OF assms(1) k2] dec inc same zero by blast
qed

theorem addk_monotone_witness:
  "fst (get_log_prob_addk ''a'' ''b'' [(''a'', 1), (''b'', 1), (''</s>'', 1)]
          [(''<s>'', [(''a'', 1)]), (''a'', [(''b'', 1)]), (''b'', [(''</s>'', 1)])] 2) = Inr (ln (3 / 7)) \<and>
   spec_addk_probability [(''a'', 1), (''b'', 1), (''</s>'', 1)]
     [(''<s>'', [(''a'', 1)]), (''a'', [(''b'', 1)]), (''b'', [(''</s>'', 1)])] ''a'' ''b'' 2
   < spec_addk_probability [(''a'', 1), (''b'', 1), (''</s>'', 1)]
     [(''<s>'', [(''a'', 1)]), (''a'', [(''b'', 1)]), (''b'', [(''</s>'', 1)])] ''a'' ''b'' 1 \<and>
   spec_addk_probability [(''a'', 1), (''b'', 1), (''</s>'', 1)]
     [(''<s>'', [(''a'', 1)]), (''a'', [(''b'', 1)]), (''b'', [(''</s>'', 1)])] ''a'' ''zzz'' 1
   < spec_addk_probability [(''a'', 1), (''b'', 1), (''</s>'', 1)]
     [(''<s>'', [(''a'', 1)]), (''a'', [(''b'', 1)]), (''b'', [(''</s>'', 1)])] ''a'' ''zzz'' 2"
proof -
  have p: "spec_addk_probability [(''a'', 1), (''b'', 1), (''</s>'', 1)]
     [(''<s>'', [(''a'', 1)]), (''a'', [(''b'', 1)]), (''b'', [(''</s>'', 1)])] ''a'' ''b'' 2 = 3 / 7"
    by (simp add: spec_addk_probability_def bigram_count_def counter_get_def)
  have h1: "counter_get [(''a'', 1), (''b'', 1), (''</s>'', 1)] ''a''
      < bigram_count [(''<s>'', [(''a'', 1)]), (''a'', [(''b'', 1)]), (''b'', [(''</s>'', 1)])] ''a'' ''b''
        * length [(''a'', 1 :: nat), (''b'', 1), (''</s>'', 1)]"
    by (simp add: bigram_count_def counter_get_def)
  have h2: "bigram_count [(''<s>'', [(''a'', 1)]), (''a'', [(''b'', 1)]), (''b'', [(''</s>'', 1)])] ''a'' ''zzz''
        * length [(''a'', 1 :: nat), (''b'', 1), (''</s>'', 1)]
      < counter_get [(''a'', 1), (''b'', 1), (''</s>'', 1)] ''a''"
    by (simp add: bigram_count_def counter_get_def)
  have n: "[(''a'', 1 :: nat), (''b'', 1), (''</s>'', 1)] \<noteq> []" and k: "(0::real) < 1" "(1::real) < 2"
    by simp_all
  show ?thesis
    using p h1 h2
      addk_monotone [OF n k, of "''a''" "''b''"
        "[(''<s>'', [(''a'', 1)]), (''a'', [(''b'', 1)]), (''b'', [(''</s>'', 1)])]"]
      addk_monotone [OF n k, of "''a''" "''zzz''"
        "[(''<s>'', [(''a'', 1)]), (''a'', [(''b'', 1)]), (''b'', [(''</s>'', 1)])]"]
    by simp
qed

text \<open>
  The claim as stated fails on the corpus of the one sentence \<open>a a a a b\<close>: the bigram
  \<open>(a, b)\<close> has the raw count 1, the raw estimate 1/4, and its smoothed probability goes
  up from 2/7 at \<open>k = 1\<close> to 3/10 at \<open>k = 2\<close>.
\<close>

theorem addk_monotone_counterexample:
  "bigram_count (fst (snd (get_counts [[''a'', ''a'', ''a'', ''a'', ''b'']]))) ''a'' ''b'' \<noteq> 0 \<and>
   fst (get_log_prob_addk ''a'' ''b'' (fst (get_counts [[''a'', ''a'', ''a'', ''a'', ''b'']]))
          (fst (snd (get_counts [[''a'', ''a'', ''a'', ''a'', ''b'']]))) 1) = Inr (ln (2 / 7)) \<and>
   fst (get_log_prob_addk ''a'' ''b'' (fst (get_counts [[''a'', ''a'', ''a'', ''a'', ''b'']]))
          (fst (snd (get_counts [[''a'', ''a'', ''a'', ''a'', ''b'']]))) 2) = Inr (ln (3 / 10)) \<and>
   ln (2 / 7 :: real) < ln (3 / 10) \<and>
   real (bigram_count (fst (snd (get_counts [[''a'', ''a'', ''a'', ''a'', ''b'']]))) ''a'' ''b'')
     / real (counter_get (fst (get_counts [[''a'', ''a'', ''a'', ''a'', ''b'']])) ''a'') < 2 / 7"
proof -
  have t: "get_counts [[''a'', ''a'', ''a'', ''a'', ''b'']] =
     ([(''a'', 4), (''b'', 1), (''</s>'', 1)],
      [(''<s>'', [(''a'', 1)]), (''a'', [(''a'', 3), (''b'', 1)]), (''b'', [(''</s>'', 1)])], 1, 6)"
    by (simp add: counting_defs)
  show ?thesis
    unfolding t
    by (simp add: get_log_prob_addk_def dd_get_def counter_get_def bigram_count_def py_div_def
        math_log_def)
qed

subsection \<open>Interpolated estimator\<close>

text \<open>
  C2 (as the code has it). For a token count \<open>> 0\<close> the interpolated estimator returns
  \<open>log(bigramTerm + unigramTerm + zerogramTerm)\<close> with the three terms of the specification
  (the bigram term is 0 and no division is made when \<open>BigramCounts[prev][word] * bigramWeight\<close>
  is 0; otherwise the product is divided by \<open>StartCount\<close> for the START marker and by
  \<open>UnigramCounts[prev]\<close> for any other token), \<^emph>\<open>provided\<close> the vocabulary is not empty, the
  conditioning count is not 0 when the division is made, and the mixture is positive.
  Otherwise it raises: \<open>ZeroDivisionError\<close> for an empty vocabulary or a zero conditioning
  count under a nonzero product, \<open>ValueError\<close> for a mixture \<open>\<le> 0\<close>.
\<close>

theorem interp_formula:
  assumes "0 < tc"
  shows "fst (get_log_prob_interp prev word u b sc tc (bw, uw)) =
           (if (real (bigram_count b prev word) * bw \<noteq> 0 \<and> spec_conditioning_count u sc prev = 0)
               \<or> u = []
            then Inl ZeroDivisionError
            else if spec_mixture u b sc tc prev word bw uw \<le> 0 then Inl ValueError
            else Inr (ln (spec_mixture u b sc tc prev word bw uw)))"
  using assms
  by (simp add: get_log_prob_interp_def split_beta Let_def dd_get_row py_div_def math_log_def
      spec_mixture_def spec_bigram_term_def spec_unigram_term_def spec_zerogram_term_def
      spec_conditioning_count_def)

theorem interp_formula_witness:
  "fst (get_log_prob_interp ''<s>'' ''a'' [(''a'', 1), (''b'', 1), (''</s>'', 1)]
          [(''<s>'', [(''a'', 1)]), (''a'', [(''b'', 1)]), (''b'', [(''</s>'', 1)])] 1 3
          (1 / 2, 1 / 4)) = Inr (ln (2 / 3))"
  by (subst interp_formula)
    (simp_all add: spec_mixture_def spec_bigram_term_def spec_unigram_term_def
      spec_zerogram_term_def spec_conditioning_count_def bigram_count_def counter_get_def
      START_def)

text \<open>
  The claim as stated fails for the weights \<open>(1, 0)\<close>, which sum to 1: for a word that was
  never seen all three terms are 0 and the logarithm raises \<open>ValueError\<close>.
\<close>

theorem interp_formula_counterexample:
  "fst (get_log_prob_interp ''a'' ''zzz'' (fst (get_counts [[''a'']]))
          (fst (snd (get_counts [[''a'']]))) 1 2 (1, 0)) = Inl ValueError"
  by (simp add: counting_defs get_log_prob_interp_def py_div_def math_log_def)

subsection \<open>Add-k sentence score\<close>

text \<open>
  C10. The add-k sentence scorer does not read its \<open>start_count\<close> and \<open>token_count\<close>
  arguments: two calls that differ only there return the same value (and the same table).
\<close>

theorem sent_addk_ignores_counts:
  "get_sent_log_prob_addk sentence unigram_counts bigram_counts start_count token_count k =
   get_sent_log_prob_addk sentence unigram_counts bigram_counts start_count' token_count' k"
  by (simp add: get_sent_log_prob_addk_def)

text \<open>
  C3. The exponential of the add-k sentence score should lie in \<open>(0, 1]\<close>. The code does not
  keep this: \<open>get_log_prob_addk\<close> divides by \<open>UnigramCounts[prev]\<close> also for the START marker,
  which is never counted as a unigram, instead of by the start count as the interpolated
  estimator does. Trained on the one sentence \<open>a\<close> and scoring that sentence with
  \<open>k = 1/4\<close>, the score is \<open>log(5/2) + log(5/6)\<close>, whose exponential is 25/12.
\<close>

theorem sent_addk_exceeds_one:
  "fst (get_sent_log_prob_addk [''a''] (fst (get_counts [[''a'']]))
          (fst (snd (get_counts [[''a'']]))) 1 2 (1 / 4)) = Inr (ln (5 / 2) + ln (5 / 6)) \<and>
   exp (ln (5 / 2) + ln (5 / 6) :: real) = 25 / 12"
proof -
  have t: "get_counts [[''a'']] =
      ([(''a'', 1), (''</s>'', 1)], [(''<s>'', [(''a'', 1)]), (''a'', [(''</s>'', 1)])], 1, 2)"
    by (simp add: counting_defs)
  have s: "fst (get_sent_log_prob_addk [''a''] [(''a'', 1), (''</s>'', 1)]
      [(''<s>'', [(''a'', 1)]), (''a'', [(''</s>'', 1)])] 1 2 (1 / 4)) = Inr (ln (5 / 2) + ln (5 / 6))"
    by (simp add: get_sent_log_prob_addk_def get_log_prob_addk_def convert_sentence_def
        bigrams_of_def dd_get_def counter_get_def py_div_def math_log_def lower_def lower_char_def
        START_def END_def)
  have "exp (ln (5 / 2) + ln (5 / 6) :: real) = 25 / 12"
    by (simp add: exp_add)
  then show ?thesis using s by (simp add: t)
qed

text \<open>
  The defect is confined to the START row: for every other conditioning token the bigram
  count is at most the unigram count, so the smoothed probability is at most 1.
\<close>

lemma addk_probability_le_one:
  assumes "get_counts ss = (u, b, sc, tc)" and "prev \<noteq> START" and "0 < k" and "u \<noteq> []"
  shows "spec_addk_probability u b prev word k \<le> 1"
proof -
  have c: "real (bigram_count b prev word) \<le> real (counter_get u prev)"
    using bigram_le_unigram [OF assms(1,2)] by simp
  have "1 \<le> real (length u)" using assms(4) by (cases u) simp_all
  then have kv: "k * 1 \<le> k * real (length u)" using assms(3) by (intro mult_left_mono) simp_all
  then have n: "real (bigram_count b prev word) + k \<le> real (counter_get u prev) + k * real (length u)"
    using c by simp
  have "0 < k * real (length u)" using kv assms(3) by linarith
  then have "0 < real (counter_get u prev) + k * real (length u)"
    by (simp add: add_nonneg_pos)
  then show ?thesis using n by (simp add: spec_addk_probability_def)
qed

subsection \<open>Perplexity\<close>

lemma perplexity_loop_sums:
  assumes "I b"
    and "\<And>s b'. s \<in> set ss \<Longrightarrow> I b' \<Longrightarrow> \<exists>b''. f s u b' sc tc par = (Inr (score s), b'') \<and> I b''"
  shows "\<exists>b1. perplexity_loop f u sc tc par ss (t, n) b =
            (Inr (t + sum_list (map score ss), n + sum_list (map (\<lambda>s. length s + 1) ss)), b1) \<and> I b1"
  using assms
proof (induction ss arbitrary: t n b)
  case Nil
  then show ?case by simp
next
  case (Cons s ss)
  obtain b2 where f: "f s u b sc tc par = (Inr (score s), b2)" and i2: "I b2"
    using Cons.prems(2) [of s b] Cons.prems(1) by auto
  have "\<exists>b1. perplexity_loop f u sc tc par ss (t + score s, n + (length s + 1)) b2 =
            (Inr (t + score s + sum_list (map score ss),
                  n + (length s + 1) + sum_list (map (\<lambda>s. length s + 1) ss)), b1) \<and> I b1"
    by (rule Cons.IH [OF i2]) (use Cons.prems(2) in auto)
  then show ?case using f by (simp add: add.assoc)
qed

text \<open>
  C5 (as the code has it). For a \<^emph>\<open>non-empty\<close> test corpus and a scorer that returns a
  log-probability \<open>score s\<close> on every test sentence (\<open>I\<close> is any property of the bigram
  table that holds at the start and that the scorer keeps), the evaluator returns
  \<open>exp(-totalLogProbability / totalTokenCount)\<close>, where the total log-probability is the sum
  of the scores and the total token count is the sum of \<open>length(sentence) + 1\<close>.
\<close>

theorem perplexity_formula:
  assumes "sentences \<noteq> []"
    and "I b"
    and "\<And>s b'. s \<in> set sentences \<Longrightarrow> I b'
           \<Longrightarrow> \<exists>b''. smoothing_function s u b' sc tc parameter = (Inr (score s), b'') \<and> I b''"
  shows "fst (calculate_perplexity sentences u b sc tc smoothing_function parameter) =
           Inr (exp (- sum_list (map score sentences)
                     / real (sum_list (map (\<lambda>s. length s + 1) sentences))))"
proof -
  obtain b1 where l: "perplexity_loop smoothing_function u sc tc parameter sentences (0, 0) b =
      (Inr (0 + sum_list (map score sentences),
            0 + sum_list (map (\<lambda>s. length s + 1) sentences)), b1)"
    using perplexity_loop_sums [of I b sentences smoothing_function u sc tc parameter score 0 0]
      assms(2,3) by blast
  have "sum_list (map (\<lambda>s. length s + 1) sentences) \<noteq> 0"
    using assms(1) by (cases sentences) simp_all
  then show ?thesis
    using l by (simp add: calculate_perplexity_def py_div_def)
qed

theorem perplexity_formula_witness:
  "fst (calculate_perplexity [[''a'', ''b'']] [(''a'', 2), (''b'', 1), (''</s>'', 2), (''c'', 1)]
          [(''<s>'', [(''a'', 2)]), (''a'', [(''b'', 1), (''c'', 1)]), (''b'', [(''</s>'', 1)]),
           (''c'', [(''</s>'', 1)])] 2 6 get_sent_log_prob_addk 1)
     = Inr (exp (- (ln (3 / 4) + (ln (1 / 3) + ln (2 / 5))) / 3))"
proof -
  let ?u = "[(''a'', 2), (''b'', 1), (''</s>'', 2), (''c'', 1)] :: counter"
  let ?b = "[(''<s>'', [(''a'', 2)]), (''a'', [(''b'', 1), (''c'', 1)]), (''b'', [(''</s>'', 1)]),
           (''c'', [(''</s>'', 1)])] :: bigram_table"
  have s: "get_sent_log_prob_addk [''a'', ''b''] ?u ?b 2 6 1 =
      (Inr (ln (3 / 4) + (ln (1 / 3) + ln (2 / 5))), ?b)"
    by (simp add: get_sent_log_prob_addk_def get_log_prob_addk_def convert_sentence_def
        bigrams_of_def dd_get_def counter_get_def py_div_def math_log_def lower_def lower_char_def
        START_def END_def)
  have n: "[[''a'', ''b'']] \<noteq> ([] :: sentence list)" by simp
  have step: "\<exists>b''. get_sent_log_prob_addk s ?u b' 2 6 1 =
                  (Inr ((\<lambda>s. ln (3 / 4) + (ln (1 / 3) + ln (2 / 5))) s), b'') \<and> b'' = ?b"
    if "s \<in> set [[''a'', ''b'']]" and "b' = ?b" for s b'
    using that s by simp
  show ?thesis
    using perplexity_formula [of "[[''a'', ''b'']]" "\<lambda>b'. b' = ?b" ?b get_sent_log_prob_addk ?u 2 6 1
        "\<lambda>s. ln (3 / 4) + (ln (1 / 3) + ln (2 / 5))", OF n refl step]
    by simp
qed

text \<open>
  The claim as stated fails on the empty test corpus: the token count is 0 and the division
  raises \<open>ZeroDivisionError\<close>.
\<close>

theorem perplexity_formula_counterexample:
  "fst (calculate_perplexity [] (fst (get_counts [[''a'', ''b'']]))
          (fst (snd (get_counts [[''a'', ''b'']]))) 1 3 get_sent_log_prob_addk 1)
     = Inl ZeroDivisionError"
  by (simp add: calculate_perplexity_def py_div_def)

subsection \<open>What a call leaves in the bigram table\<close>

text \<open>
  The unigram table is a \<open>Counter\<close>: no function after \<open>get_counts\<close> writes to it, and reading
  it inserts nothing, so it is an argument that is never returned. The bigram table is a
  \<open>defaultdict\<close>: reading the row of a token that is not a key appends an empty row.
\<close>

lemma ext_refl: "only_adds_empty_rows b b"
  by (simp add: only_adds_empty_rows_def)

lemma ext_iff: "only_adds_empty_rows b b' \<longleftrightarrow> (\<exists>ps. b' = b @ map (\<lambda>p. (p, [])) ps)"
proof
  assume h: "only_adds_empty_rows b b'"
  then have t: "take (length b) b' = b" and d: "list_all (\<lambda>r. snd r = []) (drop (length b) b')"
    by (simp_all add: only_adds_empty_rows_def)
  have "drop (length b) b' = map (\<lambda>p. (p, [])) (map fst (drop (length b) b'))"
    using d by (induction "drop (length b) b'" arbitrary: b') (auto simp: list_all_iff intro!: map_idI [symmetric])
  then have "b' = b @ map (\<lambda>p. (p, [])) (map fst (drop (length b) b'))"
    using t by (metis append_take_drop_id)
  then show "\<exists>ps. b' = b @ map (\<lambda>p. (p, [])) ps" by blast
next
  assume "\<exists>ps. b' = b @ map (\<lambda>p. (p, [])) ps"
  then show "only_adds_empty_rows b b'"
    by (auto simp: only_adds_empty_rows_def list_all_iff)
qed

lemma ext_trans:
  "only_adds_empty_rows a b \<Longrightarrow> only_adds_empty_rows b c \<Longrightarrow> only_adds_empty_rows a c"
  unfolding ext_iff by (metis append.assoc map_append)

lemma ext_dd_get: "only_adds_empty_rows b (snd (dd_get b p))"
  by (simp add: dd_get_def only_adds_empty_rows_def split: option.splits)

lemma dd_get_key: "p \<in> fst ` set b \<Longrightarrow> snd (dd_get b p) = b"
  by (auto simp: dd_get_def map_of_eq_None_iff split: option.splits)

lemma ext_map_of:
  assumes "only_adds_empty_rows b b'"
  shows "map_of b' p = (case map_of b p of Some row \<Rightarrow> Some row | None \<Rightarrow> map_of (drop (length b) b') p)"
proof -
  have "b' = b @ drop (length b) b'"
    using assms by (metis append_take_drop_id only_adds_empty_rows_def)
  then have "map_of b' p = map_of (b @ drop (length b) b') p" by simp
  then show ?thesis by (simp add: map_add_def split: option.splits)
qed

lemma ext_reads:
  assumes "only_adds_empty_rows b b'"
  shows "bigram_count b' p w = bigram_count b p w"
proof (cases "map_of b p")
  case (Some row)
  then show ?thesis using ext_map_of [OF assms, of p] by (simp add: bigram_count_def)
next
  case None
  have "list_all (\<lambda>r. snd r = []) (drop (length b) b')"
    using assms by (simp add: only_adds_empty_rows_def)
  then have "\<And>row. map_of (drop (length b) b') p = Some row \<Longrightarrow> row = []"
    by (auto simp: list_all_iff dest!: map_of_SomeD)
  then show ?thesis using None ext_map_of [OF assms, of p]
    by (auto simp: bigram_count_def counter_get_def split: option.splits)
qed

lemma ext_rows:
  assumes "only_adds_empty_rows b b'" and "p \<in> fst ` set b"
  shows "map_of b' p = map_of b p"
proof -
  obtain row where "map_of b p = Some row"
    using assms(2) by (metis map_of_eq_None_iff not_None_eq)
  then show ?thesis using ext_map_of [OF assms(1), of p] by simp
qed

lemma snd_addk: "snd (get_log_prob_addk prev word u b k) = snd (dd_get b prev)"
  by (simp add: get_log_prob_addk_def split_beta Let_def)

lemma snd_interp: "snd (get_log_prob_interp prev word u b sc tc ls) = snd (dd_get b prev)"
  by (simp add: get_log_prob_interp_def split_beta Let_def)

lemma ext_comprehension:
  assumes "\<And>x b. only_adds_empty_rows b (snd (f x b))"
  shows "only_adds_empty_rows b (snd (comprehension f xs b))"
proof (induction xs arbitrary: b)
  case Nil
  show ?case by (simp add: ext_refl)
next
  case (Cons x xs)
  obtain r b1 where fx: "f x b = (r, b1)" by (cases "f x b")
  have e1: "only_adds_empty_rows b b1" using assms [of b x] fx by simp
  show ?case
  proof (cases r)
    case (Inl e)
    then show ?thesis using fx e1 by simp
  next
    case (Inr v)
    obtain r2 b2 where c: "comprehension f xs b1 = (r2, b2)" by (cases "comprehension f xs b1")
    have "only_adds_empty_rows b1 b2" using Cons.IH [of b1] c by simp
    then have "only_adds_empty_rows b b2" using e1 ext_trans by blast
    then show ?thesis using fx Inr c by (cases r2) simp_all
  qed
qed

lemma snd_sent_addk:
  "snd (get_sent_log_prob_addk s u b sc tc k) =
     snd (comprehension (\<lambda>(prev_word, word) b. get_log_prob_addk prev_word word u b k)
            (bigrams_of (convert_sentence s)) b)"
  by (simp add: get_sent_log_prob_addk_def Let_def split: prod.splits sum.splits)

lemma snd_sent_interp:
  "snd (get_sent_log_prob_interp s u b sc tc ls) =
     snd (comprehension (\<lambda>(prev_word, word) b. get_log_prob_interp prev_word word u b sc tc ls)
            (bigrams_of (convert_sentence s)) b)"
  by (simp add: get_sent_log_prob_interp_def Let_def split: prod.splits sum.splits)

lemma ext_sent_addk: "only_adds_empty_rows b (snd (get_sent_log_prob_addk s u b sc tc k))"
  unfolding snd_sent_addk
  by (rule ext_comprehension) (simp add: split_beta snd_addk ext_dd_get)

lemma ext_sent_interp: "only_adds_empty_rows b (snd (get_sent_log_prob_interp s u b sc tc ls))"
  unfolding snd_sent_interp
  by (rule ext_comprehension) (simp add: split_beta snd_interp ext_dd_get)

lemma ext_generate_loop:
  assumes "generate_loop rnd i b cur sent = Some y"
  shows "only_adds_empty_rows b (snd y)"
proof (rule generate_loop.raw_induct
    [where P = "\<lambda>rnd i b cur sent y. only_adds_empty_rows b (snd y)", OF _ assms], goal_cases)
  case (1 f rnd i b cur sent y)
  show ?case
  proof (cases "cur \<noteq> END")
    case False
    then show ?thesis using 1(2) by (auto simp: ext_refl)
  next
    case True
    obtain row b1 where g: "dd_get b cur = (row, b1)" by (cases "dd_get b cur")
    then have e1: "only_adds_empty_rows b b1" using ext_dd_get [of b cur] by simp
    consider (err) e where "y = (Inl e, b1)"
      | (rec) w where "f rnd (i + 1) b1 w (sent @ [w]) = Some y"
      using 1(2) True g by (auto split: sum.splits)
    then show ?thesis
    proof cases
      case err
      then show ?thesis using e1 by simp
    next
      case rec
      then have "only_adds_empty_rows b1 (snd y)" by (rule 1(1))
      then show ?thesis using e1 ext_trans by blast
    qed
  qed
qed

lemma ext_generate_sentence:
  "generate_sentence rnd b = Some (r, b') \<Longrightarrow> only_adds_empty_rows b b'"
  by (auto simp: generate_sentence_def split: option.splits sum.splits prod.splits
      dest!: ext_generate_loop)

text \<open>
  C4 (as the code has it). A call to an estimator, to a sentence scorer or to the generator
  leaves the unigram table as it is and changes the bigram table at most by appending empty
  rows for the conditioning tokens it looked up that were not keys: every row that existed is
  unchanged, every count read from the table is the same before and after, and a call whose
  \<open>prev\<close> is already a key returns the very same table. The key set may grow.
\<close>

theorem tables_frame:
  "only_adds_empty_rows b (snd (get_log_prob_addk prev word u b k)) \<and>
   only_adds_empty_rows b (snd (get_log_prob_interp prev word u b sc tc ls)) \<and>
   only_adds_empty_rows b (snd (get_sent_log_prob_addk s u b sc tc k)) \<and>
   only_adds_empty_rows b (snd (get_sent_log_prob_interp s u b sc tc ls)) \<and>
   (\<forall>r b'. generate_sentence rnd b = Some (r, b') \<longrightarrow> only_adds_empty_rows b b') \<and>
   (prev \<in> fst ` set b \<longrightarrow>
      snd (get_log_prob_addk prev word u b k) = b \<and>
      snd (get_log_prob_interp prev word u b sc tc ls) = b) \<and>
   (\<forall>b'. only_adds_empty_rows b b' \<longrightarrow>
      (\<forall>p w. bigram_count b' p w = bigram_count b p w) \<and>
      (\<forall>p \<in> fst ` set b. map_of b' p = map_of b p))"
  using ext_sent_addk ext_sent_interp ext_generate_sentence ext_reads ext_rows
  by (simp add: snd_addk snd_interp ext_dd_get dd_get_key)

theorem tables_frame_witness:
  "generate_sentence (\<lambda>i. 0) [(''<s>'', [(''a'', 1)]), (''a'', [(''</s>'', 1)])] =
     Some (Inr ''a'', [(''<s>'', [(''a'', 1)]), (''a'', [(''</s>'', 1)])]) \<and>
   only_adds_empty_rows [(''<s>'', [(''a'', 1)]), (''a'', [(''</s>'', 1)])]
     [(''<s>'', [(''a'', 1)]), (''a'', [(''</s>'', 1)])] \<and>
   ''a'' \<in> fst ` set [(''<s>'', [(''a'', 1 :: nat)]), (''a'', [(''</s>'', 1)])] \<and>
   snd (get_log_prob_addk ''a'' ''b'' [(''a'', 1), (''</s>'', 1)]
          [(''<s>'', [(''a'', 1)]), (''a'', [(''</s>'', 1)])] 1) =
     [(''<s>'', [(''a'', 1)]), (''a'', [(''</s>'', 1)])] \<and>
   only_adds_empty_rows [(''<s>'', [(''a'', 1)]), (''a'', [(''</s>'', 1)])]
     [(''<s>'', [(''a'', 1)]), (''a'', [(''</s>'', 1)]), (''zzz'', [])] \<and>
   bigram_count [(''<s>'', [(''a'', 1)]), (''a'', [(''</s>'', 1)]), (''zzz'', [])] ''a'' ''</s>'' =
     bigram_count [(''<s>'', [(''a'', 1)]), (''a'', [(''</s>'', 1)])] ''a'' ''</s>''"
proof -
  have g: "generate_sentence (\<lambda>i. 0) [(''<s>'', [(''a'', 1)]), (''a'', [(''</s>'', 1)])] =
      Some (Inr ''a'', [(''<s>'', [(''a'', 1)]), (''a'', [(''</s>'', 1)])])"
    by (simp add: generate_sentence_def generate_loop.simps dd_get_def START_def END_def
        py_div_def choice_def np_str_def)
  have e: "only_adds_empty_rows [(''<s>'', [(''a'', 1)]), (''a'', [(''</s>'', 1)])]
      [(''<s>'', [(''a'', 1)]), (''a'', [(''</s>'', 1)]), (''zzz'', [])]"
    by (simp add: only_adds_empty_rows_def)
  have k: "''a'' \<in> fst ` set [(''<s>'', [(''a'', 1 :: nat)]), (''a'', [(''</s>'', 1)])]"
    by simp
  show ?thesis
    using g e k
      tables_frame [of "[(''<s>'', [(''a'', 1)]), (''a'', [(''</s>'', 1)])]" "''a''" "''b''"
        "[(''a'', 1), (''</s>'', 1)]" 1 0 0 "(0, 0)" "[]" "\<lambda>i. 0"]
    by blast
qed

text \<open>
  The claim as stated fails: the add-k estimator called with a \<open>prev\<close> that is not a key of
  the bigram table returns a table with one more key.
\<close>

theorem tables_frame_counterexample:
  "snd (get_log_prob_addk ''zzz'' ''a'' (fst (get_counts [[''a'']]))
          (fst (snd (get_counts [[''a'']]))) 1)
     \<noteq> fst (snd (get_counts [[''a'']])) \<and>
   ''zzz'' \<notin> fst ` set (fst (snd (get_counts [[''a'']]))) \<and>
   ''zzz'' \<in> fst ` set (snd (get_log_prob_addk ''zzz'' ''a'' (fst (get_counts [[''a'']]))
          (fst (snd (get_counts [[''a'']]))) 1))"
  by (simp add: counting_defs get_log_prob_addk_def)

subsection \<open>Empty input\<close>

lemma sent_addk_empty_is_bigram:
  "get_sent_log_prob_addk [] u b sc tc k = get_log_prob_addk START END u b k"
  by (simp add: get_sent_log_prob_addk_def bigrams_of_convert split: prod.splits sum.splits)

lemma sent_interp_empty_is_bigram:
  "get_sent_log_prob_interp [] u b sc tc ls = get_log_prob_interp START END u b sc tc ls"
  by (simp add: get_sent_log_prob_interp_def bigrams_of_convert split: prod.splits sum.splits)

lemma interp_value:
  assumes "u \<noteq> []" and "0 < tc" and "0 < sc" and "0 \<le> bw" and "0 \<le> uw" and "bw + uw < 1"
  shows "fst (get_log_prob_interp START word u b sc tc (bw, uw)) =
           Inr (ln (spec_mixture u b sc tc START word bw uw))"
    and "0 < spec_mixture u b sc tc START word bw uw"
proof -
  have c: "spec_conditioning_count u sc START = sc"
    by (simp add: spec_conditioning_count_def)
  have "0 \<le> real (bigram_count b START word) * bw / real sc"
    using assms(4) by simp
  then have b0: "0 \<le> spec_bigram_term u b sc START word bw"
    by (simp add: spec_bigram_term_def c)
  have u0: "0 \<le> spec_unigram_term u tc word uw"
    using assms(2,5) by (simp add: spec_unigram_term_def)
  have "0 < real (length u)" using assms(1) by simp
  then have z0: "0 < spec_zerogram_term u bw uw"
    using assms(6) by (simp add: spec_zerogram_term_def)
  show m: "0 < spec_mixture u b sc tc START word bw uw"
    using b0 u0 z0 by (simp add: spec_mixture_def)
  show "fst (get_log_prob_interp START word u b sc tc (bw, uw)) =
           Inr (ln (spec_mixture u b sc tc START word bw uw))"
    using interp_formula [OF assms(2), where prev = START and word = word and b = b
        and u = u and sc = sc and bw = bw and uw = uw] m assms(1,3)
    by (simp add: c)
qed

lemma interp_empty_vocabulary:
  "fst (get_log_prob_interp prev word [] b sc tc ls) = Inl ZeroDivisionError"
  by (simp add: get_log_prob_interp_def split_beta Let_def py_div_def counter_get_def)

lemma comprehension_first_error:
  "fst (f x b) = Inl e \<Longrightarrow> fst (comprehension f (x # xs) b) = Inl e"
  by (cases "f x b") (auto split: sum.splits prod.splits)

lemma bigrams_of_convert_Cons:
  "\<exists>w ps. bigrams_of (convert_sentence s) = (START, w) # ps"
  by (cases "map lower s") (simp_all add: bigrams_of_convert)

lemma sent_addk_empty_vocabulary:
  "fst (get_sent_log_prob_addk s [] b sc tc k) = Inl ZeroDivisionError"
proof -
  obtain w ps where p: "bigrams_of (convert_sentence s) = (START, w) # ps"
    using bigrams_of_convert_Cons by blast
  have "fst (get_log_prob_addk START w [] b k) = Inl ZeroDivisionError"
    by (simp add: get_log_prob_addk_def split_beta py_div_def counter_get_def)
  then have "fst (comprehension (\<lambda>(prev_word, word) b. get_log_prob_addk prev_word word [] b k)
               ((START, w) # ps) b) = Inl ZeroDivisionError"
    by (intro comprehension_first_error) simp
  then show ?thesis
    by (simp add: get_sent_log_prob_addk_def p split: prod.splits sum.splits)
qed

lemma sent_interp_empty_vocabulary:
  "fst (get_sent_log_prob_interp s [] b sc tc ls) = Inl ZeroDivisionError"
proof -
  obtain w ps where p: "bigrams_of (convert_sentence s) = (START, w) # ps"
    using bigrams_of_convert_Cons by blast
  have "fst (comprehension (\<lambda>(prev_word, word) b. get_log_prob_interp prev_word word [] b sc tc ls)
               ((START, w) # ps) b) = Inl ZeroDivisionError"
    by (intro comprehension_first_error) (simp add: interp_empty_vocabulary)
  then show ?thesis
    by (simp add: get_sent_log_prob_interp_def p split: prod.splits sum.splits)
qed

lemma perplexity_empty_sentence:
  "calculate_perplexity [[]] u b sc tc f par =
     (case f [] u b sc tc par of
        (Inl e, b1) \<Rightarrow> (Inl e, b1)
      | (Inr lp, b1) \<Rightarrow> (Inr (exp (- lp)), b1))"
  by (simp add: calculate_perplexity_def py_div_def split: prod.splits sum.splits)

lemma generate_from_empty_sentence:
  "generate_sentence rnd [(START, [(END, 1)])] = Some (Inr [], [(START, [(END, 1)])])"
  by (simp add: generate_sentence_def generate_loop.simps dd_get_def choice_def np_str_def py_div_def
      START_def END_def)

text \<open>
  C8 (as the code has it). \<open>get_counts\<close> on the empty corpus returns empty tables, start
  count 0 and token count 0. An empty sentence is accepted by every operation that takes a
  sentence: it is normalised to \<open>[START, END]\<close> and counted; each sentence scorer gives it
  exactly the result of its estimator on the one bigram \<open>(START, END)\<close>, which is a
  log-probability for a non-empty vocabulary and valid parameters (\<open>k > 0\<close>; non-negative
  weights with a positive zerogram weight, positive start and token counts);
  \<open>calculate_perplexity\<close> on the test corpus of one empty sentence returns \<open>exp(-score)\<close>
  whenever the scorer returns; and the generator on the tables of that corpus returns the
  empty text. What is not accepted is an empty corpus or an empty vocabulary where a division
  needs a count: both scorers raise \<open>ZeroDivisionError\<close> on an empty vocabulary,
  \<open>calculate_perplexity\<close> raises \<open>ZeroDivisionError\<close> on an empty test corpus, and
  \<open>generate_sentence\<close> raises \<open>ValueError\<close> on the empty table (after inserting an empty
  START row).
\<close>

theorem empty_input:
  "get_counts [] = ([], [], 0, 0) \<and>
   convert_sentence [] = [START, END] \<and>
   get_counts [[]] = ([(END, 1)], [(START, [(END, 1)])], 1, 1) \<and>
   (\<forall>u b sc tc k.
      get_sent_log_prob_addk [] u b sc tc k = get_log_prob_addk START END u b k) \<and>
   (\<forall>u b sc tc ls.
      get_sent_log_prob_interp [] u b sc tc ls = get_log_prob_interp START END u b sc tc ls) \<and>
   (\<forall>u b sc tc k. u \<noteq> [] \<and> 0 < k \<longrightarrow>
      fst (get_sent_log_prob_addk [] u b sc tc k) =
        Inr (ln (spec_addk_probability u b START END k))) \<and>
   (\<forall>u b sc tc bw uw. u \<noteq> [] \<and> 0 < tc \<and> 0 < sc \<and> 0 \<le> bw \<and> 0 \<le> uw \<and> bw + uw < 1 \<longrightarrow>
      fst (get_sent_log_prob_interp [] u b sc tc (bw, uw)) =
        Inr (ln (spec_mixture u b sc tc START END bw uw))) \<and>
   (\<forall>u b sc tc f par.
      calculate_perplexity [[]] u b sc tc f (par :: 'p) =
        (case f [] u b sc tc par of
           (Inl e, b1) \<Rightarrow> (Inl e, b1)
         | (Inr lp, b1) \<Rightarrow> (Inr (exp (- lp)), b1))) \<and>
   (\<forall>u b sc tc k. u \<noteq> [] \<and> 0 < k \<longrightarrow>
      fst (calculate_perplexity [[]] u b sc tc get_sent_log_prob_addk k) =
        Inr (exp (- ln (spec_addk_probability u b START END k)))) \<and>
   (\<forall>u b sc tc bw uw. u \<noteq> [] \<and> 0 < tc \<and> 0 < sc \<and> 0 \<le> bw \<and> 0 \<le> uw \<and> bw + uw < 1 \<longrightarrow>
      fst (calculate_perplexity [[]] u b sc tc get_sent_log_prob_interp (bw, uw)) =
        Inr (exp (- ln (spec_mixture u b sc tc START END bw uw)))) \<and>
   (\<forall>rnd. generate_sentence rnd [(START, [(END, 1)])] = Some (Inr [], [(START, [(END, 1)])])) \<and>
   (\<forall>s b sc tc k. fst (get_sent_log_prob_addk s [] b sc tc k) = Inl ZeroDivisionError) \<and>
   (\<forall>s b sc tc ls. fst (get_sent_log_prob_interp s [] b sc tc ls) = Inl ZeroDivisionError) \<and>
   (\<forall>u b sc tc f par. calculate_perplexity [] u b sc tc f (par :: 'p) = (Inl ZeroDivisionError, b)) \<and>
   (\<forall>rnd. generate_sentence rnd [] = Some (Inl ValueError, [(START, [])]))"
proof -
  have 1: "get_counts [] = ([], [], 0, 0)"
    by (simp add: get_counts_def count_unigrams_def count_bigrams_def)
  have 2: "convert_sentence [] = [START, END]"
    by (simp add: convert_sentence_def)
  have 3: "get_counts [[]] = ([(END, 1)], [(START, [(END, 1)])], 1, 1)"
    by (simp add: counting_defs)
  have 4: "\<forall>u b sc tc k.
      get_sent_log_prob_addk [] u b sc tc k = get_log_prob_addk START END u b k"
    by (simp add: sent_addk_empty_is_bigram)
  have 5: "\<forall>u b sc tc ls.
      get_sent_log_prob_interp [] u b sc tc ls = get_log_prob_interp START END u b sc tc ls"
    by (simp add: sent_interp_empty_is_bigram)
  have 6: "\<forall>u b sc tc k. u \<noteq> [] \<and> 0 < k \<longrightarrow>
      fst (get_sent_log_prob_addk [] u b sc tc k) =
        Inr (ln (spec_addk_probability u b START END k))"
    using addk_value(1) by (simp add: sent_addk_empty_is_bigram)
  have 7: "\<forall>u b sc tc bw uw. u \<noteq> [] \<and> 0 < tc \<and> 0 < sc \<and> 0 \<le> bw \<and> 0 \<le> uw \<and> bw + uw < 1 \<longrightarrow>
      fst (get_sent_log_prob_interp [] u b sc tc (bw, uw)) =
        Inr (ln (spec_mixture u b sc tc START END bw uw))"
    using interp_value(1) by (simp add: sent_interp_empty_is_bigram)
  have 8: "\<forall>u b sc tc f par.
      calculate_perplexity [[]] u b sc tc f (par :: 'p) =
        (case f [] u b sc tc par of
           (Inl e, b1) \<Rightarrow> (Inl e, b1)
         | (Inr lp, b1) \<Rightarrow> (Inr (exp (- lp)), b1))"
    by (simp add: perplexity_empty_sentence)
  have 9: "\<forall>u b sc tc k. u \<noteq> [] \<and> 0 < k \<longrightarrow>
      fst (calculate_perplexity [[]] u b sc tc get_sent_log_prob_addk k) =
        Inr (exp (- ln (spec_addk_probability u b START END k)))"
  proof (intro allI impI)
    fix u :: counter and b :: bigram_table and sc :: nat and tc k :: real
    assume "u \<noteq> [] \<and> 0 < k"
    then have "fst (get_sent_log_prob_addk [] u b sc tc k) =
        Inr (ln (spec_addk_probability u b START END k))"
      using 6 by blast
    then show "fst (calculate_perplexity [[]] u b sc tc get_sent_log_prob_addk k) =
        Inr (exp (- ln (spec_addk_probability u b START END k)))"
      by (cases "get_sent_log_prob_addk [] u b sc tc k") (simp add: perplexity_empty_sentence)
  qed
  have 10: "\<forall>u b sc tc bw uw. u \<noteq> [] \<and> 0 < tc \<and> 0 < sc \<and> 0 \<le> bw \<and> 0 \<le> uw \<and> bw + uw < 1 \<longrightarrow>
      fst (calculate_perplexity [[]] u b sc tc get_sent_log_prob_interp (bw, uw)) =
        Inr (exp (- ln (spec_mixture u b sc tc START END bw uw)))"
  proof (intro allI impI)
    fix u :: counter and b :: bigram_table and sc :: nat and tc bw uw :: real
    assume "u \<noteq> [] \<and> 0 < tc \<and> 0 < sc \<and> 0 \<le> bw \<and> 0 \<le> uw \<and> bw + uw < 1"
    then have "fst (get_sent_log_prob_interp [] u b sc tc (bw, uw)) =
        Inr (ln (spec_mixture u b sc tc START END bw uw))"
      using 7 by blast
    then show "fst (calculate_perplexity [[]] u b sc tc get_sent_log_prob_interp (bw, uw)) =
        Inr (exp (- ln (spec_mixture u b sc tc START END bw uw)))"
      by (cases "get_sent_log_prob_interp [] u b sc tc (bw, uw)")
        (simp add: perplexity_empty_sentence)
  qed
  have 11: "\<forall>rnd. generate_sentence rnd [(START, [(END, 1)])] =
      Some (Inr [], [(START, [(END, 1)])])"
    by (intro allI generate_from_empty_sentence)
  have 12: "\<forall>s b sc tc k. fst (get_sent_log_prob_addk s [] b sc tc k) = Inl ZeroDivisionError"
    by (simp add: sent_addk_empty_vocabulary)
  have 13: "\<forall>s b sc tc ls. fst (get_sent_log_prob_interp s [] b sc tc ls) = Inl ZeroDivisionError"
    by (simp add: sent_interp_empty_vocabulary)
  have 14: "\<forall>u b sc tc f par.
      calculate_perplexity [] u b sc tc f (par :: 'p) = (Inl ZeroDivisionError, b)"
    by (simp add: calculate_perplexity_def py_div_def)
  have 15: "\<forall>rnd. generate_sentence rnd [] = Some (Inl ValueError, [(START, [])])"
    by (simp add: generate_sentence_def generate_loop.simps dd_get_def choice_def np_str_def START_def END_def)
  show ?thesis
    by (intro conjI 1 2 3 4 5 6 7 8 9 10 11 12 13 14 15)
qed

theorem empty_input_witness:
  "fst (get_sent_log_prob_addk [] [(''</s>'', 1)] [(''<s>'', [(''</s>'', 1)])] 1 1 1) = Inr (ln 2) \<and>
   fst (get_sent_log_prob_interp [] [(''</s>'', 1)] [(''<s>'', [(''</s>'', 1)])] 1 1 (1 / 2, 1 / 4))
     = Inr (ln 1) \<and>
   fst (calculate_perplexity [[]] [(''</s>'', 1)] [(''<s>'', [(''</s>'', 1)])] 1 1
          get_sent_log_prob_addk 1) = Inr (exp (- ln 2)) \<and>
   fst (calculate_perplexity [[]] [(''</s>'', 1)] [(''<s>'', [(''</s>'', 1)])] 1 1
          get_sent_log_prob_interp (1 / 2, 1 / 4)) = Inr (exp (- ln 1))"
proof -
  let ?u = "[(''</s>'', 1)] :: counter"
  let ?b = "[(''<s>'', [(''</s>'', 1)])] :: bigram_table"
  have p: "spec_addk_probability ?u ?b START END 1 = 2"
    by (simp add: spec_addk_probability_def bigram_count_def counter_get_def START_def END_def)
  have m: "spec_mixture ?u ?b 1 1 START END (1 / 2) (1 / 4) = 1"
    by (simp add: spec_mixture_def spec_bigram_term_def spec_unigram_term_def
        spec_zerogram_term_def spec_conditioning_count_def bigram_count_def counter_get_def
        START_def END_def)
  have h1: "?u \<noteq> [] \<and> (0 :: real) < 1" by simp
  have h2: "?u \<noteq> [] \<and> (0 :: real) < 1 \<and> (0 :: nat) < 1 \<and> (0 :: real) \<le> 1 / 2 \<and> (0 :: real) \<le> 1 / 4
      \<and> (1 / 2 + 1 / 4 :: real) < 1" by simp
  have "\<forall>u b sc tc k. u \<noteq> [] \<and> 0 < k \<longrightarrow>
      fst (get_sent_log_prob_addk [] u b sc tc k) =
        Inr (ln (spec_addk_probability u b START END k))"
    using empty_input [where ?'p = real] by (elim conjE)
  then have a: "fst (get_sent_log_prob_addk [] ?u ?b 1 1 1) =
      Inr (ln (spec_addk_probability ?u ?b START END 1))"
    using h1 by blast
  have "\<forall>u b sc tc bw uw. u \<noteq> [] \<and> 0 < tc \<and> 0 < sc \<and> 0 \<le> bw \<and> 0 \<le> uw \<and> bw + uw < 1 \<longrightarrow>
      fst (get_sent_log_prob_interp [] u b sc tc (bw, uw)) =
        Inr (ln (spec_mixture u b sc tc START END bw uw))"
    using empty_input [where ?'p = real] by (elim conjE)
  then have b: "fst (get_sent_log_prob_interp [] ?u ?b 1 1 (1 / 2, 1 / 4)) =
      Inr (ln (spec_mixture ?u ?b 1 1 START END (1 / 2) (1 / 4)))"
    using h2 by blast
  have "\<forall>u b sc tc k. u \<noteq> [] \<and> 0 < k \<longrightarrow>
      fst (calculate_perplexity [[]] u b sc tc get_sent_log_prob_addk k) =
        Inr (exp (- ln (spec_addk_probability u b START END k)))"
    using empty_input [where ?'p = real] by (elim conjE)
  then have c: "fst (calculate_perplexity [[]] ?u ?b 1 1 get_sent_log_prob_addk 1) =
      Inr (exp (- ln (spec_addk_probability ?u ?b START END 1)))"
    using h1 by blast
  have "\<forall>u b sc tc bw uw. u \<noteq> [] \<and> 0 < tc \<and> 0 < sc \<and> 0 \<le> bw \<and> 0 \<le> uw \<and> bw + uw < 1 \<longrightarrow>
      fst (calculate_perplexity [[]] u b sc tc get_sent_log_prob_interp (bw, uw)) =
        Inr (exp (- ln (spec_mixture u b sc tc START END bw uw)))"
    using empty_input [where ?'p = "real \<times> real"] by (elim conjE)
  then have d: "fst (calculate_perplexity [[]] ?u ?b 1 1 get_sent_log_prob_interp (1 / 2, 1 / 4)) =
      Inr (exp (- ln (spec_mixture ?u ?b 1 1 START END (1 / 2) (1 / 4))))"
    using h2 by blast
  show ?thesis using a b c d unfolding p m by (intro conjI)
qed

text \<open>
  The claim as stated fails: the perplexity of the empty test corpus, on the tables of the
  empty training corpus, is a division of 0 by 0.
\<close>

theorem empty_input_counterexample:
  "fst (calculate_perplexity [] (fst (get_counts [])) (fst (snd (get_counts [])))
          (fst (snd (snd (get_counts [])))) (snd (snd (snd (get_counts []))))
          get_sent_log_prob_addk 1) = Inl ZeroDivisionError"
  by (simp add: calculate_perplexity_def py_div_def)

subsection \<open>Sentence generator\<close>



lemma pick_member: "ks \<noteq> [] \<Longrightarrow> pick u ks ps \<in> set ks"
  by (induction u ks ps rule: pick.induct) auto








subsection \<open>Probability that the generator is still running\<close>









lemma weighted_sum_const:
  fixes p :: "'a \<Rightarrow> real"
  shows "(\<Sum>x\<leftarrow>xs. p x * c) = (\<Sum>x\<leftarrow>xs. p x) * c"
  by (induction xs) (simp_all add: distrib_right)














text \<open>
  How \<open>still_running\<close> meets the draws: for a draw \<open>u\<close> in \<open>[0, 1)\<close> the sampler returns the
  key at index \<open>i\<close> exactly when \<open>u\<close> lies in the interval from the sum of the first \<open>i\<close>
  probabilities to the sum of the first \<open>i + 1\<close>, an interval of length \<open>p[i]\<close>.
\<close>

lemma pick_interval:
  assumes "length ks = length ps" and "i < length ks" and "\<forall>p \<in> set ps. 0 < p"
    and "distinct ks" and "0 \<le> u" and "u < sum_list ps"
  shows "pick u ks ps = ks ! i \<longleftrightarrow> sum_list (take i ps) \<le> u \<and> u < sum_list (take (Suc i) ps)"
  using assms
proof (induction ks arbitrary: ps i u)
  case Nil
  then show ?case by simp
next
  case (Cons k ks)
  obtain p ps' where ps: "ps = p # ps'" using Cons.prems(1) by (cases ps) auto
  have p: "0 < p" and pos: "\<forall>p \<in> set ps'. 0 < p" and len: "length ks = length ps'"
    and d: "distinct ks" and k: "k \<notin> set ks"
    using Cons.prems ps by auto
  show ?case
  proof (cases i)
    case 0
    show ?thesis
    proof (cases ks)
      case Nil
      then show ?thesis using 0 ps Cons.prems len by simp
    next
      case (Cons k' ks')
      then have "pick (u - p) ks ps' \<in> set ks" by (intro pick_member) simp
      then have "pick (u - p) ks ps' \<noteq> k" using k by auto
      then show ?thesis using 0 ps Cons Cons.prems(5) by simp
    qed
  next
    case (Suc j)
    then have j: "j < length ks" using Cons.prems(2) by simp
    then have ne: "ks \<noteq> []" by auto
    have kj: "ks ! j \<noteq> k" using k j by (metis nth_mem)
    have s0: "0 \<le> sum_list (take j ps')"
      by (rule sum_list_nonneg) (use pos in \<open>auto dest!: in_set_takeD simp: less_imp_le\<close>)
    show ?thesis
    proof (cases "u < p")
      case True
      then have "pick u (k # ks) (p # ps') = k" using ne by (cases ks) simp_all
      then show ?thesis using True kj s0 Suc ps by auto
    next
      case False
      then have pk: "pick u (k # ks) (p # ps') = pick (u - p) ks ps'"
        using ne by (cases ks) simp_all
      have "pick (u - p) ks ps' = ks ! j \<longleftrightarrow>
          sum_list (take j ps') \<le> u - p \<and> u - p < sum_list (take (Suc j) ps')"
        by (rule Cons.IH [OF len j pos d]) (use False Cons.prems(6) ps in auto)
      then show ?thesis using pk Suc ps by auto
    qed
  qed
qed






text \<open>
  Termination is almost sure, not sure: trained on the one sentence \<open>a a\<close>, the row of \<open>a\<close>
  is \<open>{a: 1, </s>: 1}\<close>, and under the one sequence of draws that are all 0 the loop draws
  \<open>a\<close> for ever.
\<close>

lemma generate_loop_repeats:
  assumes "generate_loop rnd i b cur sent = Some y"
  shows "\<not> (rnd = zero_draws \<and>
            b = [(''<s>'', [(''a'', 1)]), (''a'', [(''a'', 1), (''</s>'', 1)])] \<and> cur = ''a'')"
proof (rule generate_loop.raw_induct
    [where P = "\<lambda>rnd i b cur sent y. \<not> (rnd = zero_draws \<and>
            b = [(''<s>'', [(''a'', 1)]), (''a'', [(''a'', 1), (''</s>'', 1)])] \<and> cur = ''a'')",
      OF _ assms], goal_cases)
  case (1 f rnd i b cur sent y)
  show ?case
  proof
    assume h: "rnd = zero_draws \<and>
        b = [(''<s>'', [(''a'', 1)]), (''a'', [(''a'', 1), (''</s>'', 1)])] \<and> cur = ''a''"
    then have "f rnd (i + 1) b ''a'' (sent @ [''a'']) = Some y"
      using 1(2) by (simp add: dd_get_def END_def py_div_def choice_def np_str_def zero_draws_def)
    then show False using 1(1) h by blast
  qed
qed

lemma generate_sentence_may_not_end:
  "generate_sentence zero_draws (fst (snd (get_counts [[''a'', ''a'']]))) = None"
proof -
  let ?b = "[(''<s>'', [(''a'', 1)]), (''a'', [(''a'', 1), (''</s>'', 1)])] :: bigram_table"
  have b: "fst (snd (get_counts [[''a'', ''a'']])) = ?b"
    by (simp add: counting_defs)
  have "generate_loop zero_draws 1 ?b ''a'' [''<s>'', ''a''] = None"
    using generate_loop_repeats by (metis not_Some_eq)
  then have "generate_loop zero_draws 0 ?b START [START] = None"
    by (subst generate_loop.simps)
      (simp add: dd_get_def START_def END_def py_div_def choice_def np_str_def zero_draws_def)
  then show ?thesis by (simp add: b generate_sentence_def)
qed

end
